theory Spec2Isabelle
  imports Complex_Main
begin

section \<open>Vehicle routing: data model\<close>

text \<open>
  The routing code lives in \<^verbatim>\<open>mapwithvrp/vrp-backend/main.py\<close>.  Node ids are Python
  integers (\<open>0\<close> is the depot), demands, due times and the vehicle capacity are Python
  integers, and distances and durations are Python floats.  Floats are idealised as
  \<^typ>\<open>real\<close> throughout: rounding, infinities and NaN are outside the model.
  Dictionaries are maps; \<^verbatim>\<open>dict.get(k, default)\<close> is written out.
\<close>

type_synonym node = int
type_synonym trip = "node list \<times> int"

definition demand_get :: "(node \<rightharpoonup> int) \<Rightarrow> node \<Rightarrow> int" where
  \<comment> \<open>\<^verbatim>\<open>demand.get(c, 0)\<close>\<close>
  "demand_get demand c = (case demand c of None \<Rightarrow> 0 | Some d \<Rightarrow> d)"

definition due_get :: "(node \<rightharpoonup> int) \<Rightarrow> node \<Rightarrow> int" where
  \<comment> \<open>\<^verbatim>\<open>due.get(v, 9999)\<close>\<close>
  "due_get due v = (case due v of None \<Rightarrow> 9999 | Some d \<Rightarrow> d)"

subsection \<open>\<^verbatim>\<open>split_into_trips\<close>\<close>

text \<open>
  \<^verbatim>\<open>
  def split_into_trips(route, cap, demand):
      trips, cur, load = [], [], 0
      for c in route:
          d = demand.get(c,0)
          if cur and load + d > cap:
              trips.append((cur,load))
              cur,load=[],0
          cur.append(c)
          load += d
      if cur:
          trips.append((cur,load))
      return trips
  \<close>
  The loop is a recursion over the rest of the route that carries the three loop
  variables.
\<close>

fun split_loop ::
  "(node \<rightharpoonup> int) \<Rightarrow> int \<Rightarrow> node list \<Rightarrow> trip list \<Rightarrow> node list \<Rightarrow> int \<Rightarrow> trip list" where
  "split_loop demand cap [] trips cur load =
     (if cur \<noteq> [] then trips @ [(cur, load)] else trips)"
| "split_loop demand cap (c # cs) trips cur load =
     (let d = demand_get demand c;
          (trips', cur', load') =
             (if cur \<noteq> [] \<and> load + d > cap then (trips @ [(cur, load)], [], 0)
              else (trips, cur, load))
      in split_loop demand cap cs trips' (cur' @ [c]) (load' + d))"

definition split_into_trips :: "node list \<Rightarrow> int \<Rightarrow> (node \<rightharpoonup> int) \<Rightarrow> trip list" where
  "split_into_trips route cap demand = split_loop demand cap route [] [] 0"

definition trip_demand :: "(node \<rightharpoonup> int) \<Rightarrow> node list \<Rightarrow> int" where
  \<comment> \<open>the sum of the demands over the customers of a trip\<close>
  "trip_demand demand cs = sum_list (map (demand_get demand) cs)"

definition trip_ok :: "(node \<rightharpoonup> int) \<Rightarrow> int \<Rightarrow> trip \<Rightarrow> bool" where
  \<comment> \<open>what the splitter guarantees of a closed trip\<close>
  "trip_ok demand cap t =
     (fst t \<noteq> [] \<and> snd t = trip_demand demand (fst t) \<and>
      (length (fst t) = 1 \<or> snd t \<le> cap))"

section \<open>Cold-chain stability monitor: data model and operations\<close>

text \<open>
  The monitor that the service mounts is \<^verbatim>\<open>mapwithvrp/vrp-backend/stability_router.py\<close>.
  Its state is the module-level dictionary \<^verbatim>\<open>STABILITY_STATE\<close>, keyed by order id; each
  entry is a dictionary with the five keys below.  Timestamps are seconds on the real
  line, and a difference of two timestamps is what \<^verbatim>\<open>total_seconds()\<close> returns.
\<close>

type_synonym order_id = string
type_synonym timestamp = real

record stability_entry =
  timer_started :: bool
  timer_started_at :: "timestamp option"
  active :: bool
  max_exc :: real
  max_time :: real

text \<open>
  The database, as far as the two endpoints touch it: the medication limits of an order
  (the join of \<^verbatim>\<open>get_medication_config\<close>), the \<^verbatim>\<open>dashboard_id\<close> column of the order's row
  (\<^verbatim>\<open>fetchone()\<close> gives no row, or a row whose column may be NULL), and the rows inserted
  into \<^verbatim>\<open>estimated_stability_time\<close>.
\<close>

datatype dash_row = NoRow | Row "string option"

record server =
  STABILITY_STATE :: "order_id \<rightharpoonup> stability_entry"
  medication_config :: "order_id \<rightharpoonup> (real \<times> real)"
  order_dashboard :: "order_id \<Rightarrow> dash_row"
  estimated_stability_time :: "(string \<times> int) list"

datatype http_error = HTTPException nat string | TypeError

datatype response =
    StartInfo order_id real real bool
  | ErrorNotStarted
  | StatusInactive
  | Alert string
  | RemainingSeconds int bool
  | StatusSafe bool

definition FRIDGE_MAX :: real where
  "FRIDGE_MAX = 8"

definition py_int :: "real \<Rightarrow> int" where
  \<comment> \<open>Python's \<^verbatim>\<open>int(x)\<close> on a float truncates towards zero\<close>
  "py_int x = (if x < 0 then \<lceil>x\<rceil> else \<lfloor>x\<rfloor>)"

definition dashboard_of :: "dash_row \<Rightarrow> string option" where
  \<comment> \<open>\<^verbatim>\<open>if not dash_row or not dash_row[0]: raise ...\<close>: no row, NULL and the empty
      string are all falsy\<close>
  "dashboard_of r =
     (case r of NoRow \<Rightarrow> None
      | Row None \<Rightarrow> None
      | Row (Some d) \<Rightarrow> (if d = [] then None else Some d))"

text \<open>
  \<^verbatim>\<open>
  def start_stability(order_id: str):
      max_exc, max_time = get_medication_config(order_id)   # raises 404 without a row
      STABILITY_STATE[order_id] = {"timer_started": False, "timer_started_at": None,
                                   "active": True, "max_exc": max_exc, "max_time": max_time}
      return {"order_id": order_id, "max_excursion_temp": max_exc,
              "max_time_exertion_seconds": max_time, "timer_started": False}
  \<close>
  Every operation returns its outcome together with the server state it leaves behind,
  so that what an exception leaves unchanged can be read off.
\<close>

definition start_stability :: "server \<Rightarrow> order_id \<Rightarrow> (http_error + response) \<times> server" where
  "start_stability sv oid =
     (case medication_config sv oid of
        None \<Rightarrow> (Inl (HTTPException 404 ''Order or medication not found''), sv)
      | Some (mx, mt) \<Rightarrow>
          (Inr (StartInfo oid mx mt False),
           sv\<lparr>STABILITY_STATE := (STABILITY_STATE sv)(oid \<mapsto>
                \<lparr>timer_started = False, timer_started_at = None, active = True,
                 max_exc = mx, max_time = mt\<rparr>)\<rparr>))"

text \<open>
  \<^verbatim>\<open>
  def update_stability(order_id: str, data: TempUpdate):
      if order_id not in STABILITY_STATE:
          return {"error": "Monitoring not started"}
      state = STABILITY_STATE[order_id]
      if not state["active"]:
          return {"status": "inactive"}
      max_exc = state["max_exc"]; max_time = state["max_time"]
      dash_row = SELECT dashboard_id FROM "Order" WHERE order_id = :oid
      if not dash_row or not dash_row[0]:
          raise HTTPException(400, "Order has no dashboard")
      dashboard_id = dash_row[0]
      if data.temp > max_exc:
          state["active"] = False
          return {"alert": "MAX_EXCURSION_EXCEEDED"}
      if data.temp > FRIDGE_MAX and not state["timer_started"]:
          state["timer_started"] = True
          state["timer_started_at"] = _now()
      if state["timer_started"]:
          elapsed = (_now() - state["timer_started_at"]).total_seconds()
          remaining = max_time - elapsed
          if remaining <= 0:
              state["active"] = False
              remaining = 0
          INSERT INTO estimated_stability_time VALUES (dashboard_id, int(remaining))
          return {"remaining_seconds": int(remaining), "written_to_dashboard": True}
      INSERT INTO estimated_stability_time VALUES (dashboard_id, int(max_time))
      return {"status": "safe", "written_to_dashboard": True}
  \<close>
  The clock is read at most twice in one call: \<open>now_start\<close> is the reading stored when
  the timer starts, \<open>now\<close> the reading from which the elapsed time is taken.
  Subtracting a missing start time from a timestamp raises \<^verbatim>\<open>TypeError\<close>.
  The source computes \<^verbatim>\<open>max_time - elapsed\<close> in floats, that is, the nearest float to the
  difference taken here; next to a whole second the truncated report of the source can
  therefore be one less than the report of this definition.  The statements about the
  countdown below are evaluations at values that floats represent exactly, or use only
  the order of two clock readings, which rounding keeps.
\<close>

definition update_stability ::
  "server \<Rightarrow> order_id \<Rightarrow> real \<Rightarrow> timestamp \<Rightarrow> timestamp \<Rightarrow> (http_error + response) \<times> server" where
  "update_stability sv oid temp now_start now =
     (case STABILITY_STATE sv oid of
        None \<Rightarrow> (Inr ErrorNotStarted, sv)
      | Some state \<Rightarrow>
          if \<not> active state then (Inr StatusInactive, sv)
          else
            (case dashboard_of (order_dashboard sv oid) of
               None \<Rightarrow> (Inl (HTTPException 400 ''Order has no dashboard''), sv)
             | Some dashboard_id \<Rightarrow>
                 if temp > max_exc state then
                   (Inr (Alert ''MAX_EXCURSION_EXCEEDED''),
                    sv\<lparr>STABILITY_STATE := (STABILITY_STATE sv)(oid \<mapsto> state\<lparr>active := False\<rparr>)\<rparr>)
                 else
                   (let state1 =
                          (if temp > FRIDGE_MAX \<and> \<not> timer_started state
                           then state\<lparr>timer_started := True, timer_started_at := Some now_start\<rparr>
                           else state)
                    in if timer_started state1 then
                         (case timer_started_at state1 of
                            None \<Rightarrow> (Inl TypeError, sv)
                          | Some t0 \<Rightarrow>
                              (let elapsed = now - t0;
                                   remaining = max_time state - elapsed;
                                   (state2, secs) =
                                     (if remaining \<le> 0 then (state1\<lparr>active := False\<rparr>, 0)
                                      else (state1, py_int remaining))
                               in (Inr (RemainingSeconds secs True),
                                   sv\<lparr>STABILITY_STATE := (STABILITY_STATE sv)(oid \<mapsto> state2),
                                      estimated_stability_time :=
                                        estimated_stability_time sv @ [(dashboard_id, secs)]\<rparr>)))
                       else
                         (Inr (StatusSafe True),
                          sv\<lparr>estimated_stability_time :=
                               estimated_stability_time sv
                                 @ [(dashboard_id, py_int (max_time state))]\<rparr>))))"


subsection \<open>The reported countdown and sample states\<close>


text \<open>
  The scenario of the specification: a medication with \<^verbatim>\<open>max_excursion_temp\<close> 15,
  1800 seconds of allowed exposure, monitored for order \<open>ORD-1\<close>.
\<close>

definition demo_entry :: stability_entry where
  "demo_entry = \<lparr>timer_started = False, timer_started_at = None, active = True,
                  max_exc = 15, max_time = 1800\<rparr>"

definition running_entry :: stability_entry where
  "running_entry = demo_entry\<lparr>timer_started := True, timer_started_at := Some 0\<rparr>"

definition demo_server :: "stability_entry \<Rightarrow> dash_row \<Rightarrow> server" where
  "demo_server e r = \<lparr>STABILITY_STATE = [''ORD-1'' \<mapsto> e],
                     medication_config = [''ORD-1'' \<mapsto> (15, 1800)],
                     order_dashboard = (\<lambda>_. r),
                     estimated_stability_time = []\<rparr>"

section \<open>Vehicle routing: the routing client\<close>

text \<open>
  \<^verbatim>\<open>OSRMClient\<close> holds the coordinates of the nodes, a cache of answered edges and the
  set of edges that were answered by the fallback.  One call of \<^verbatim>\<open>get_edge\<close> sends at
  most one request to the map service, and an edge that was answered once is served
  from the cache, so the service is an oracle that gives one reply per edge.

  A reply is an exception of \<^verbatim>\<open>requests.get\<close> (a timeout, a refused connection), a
  response for which \<^verbatim>\<open>r.ok\<close> is false, a response whose body is not a JSON object, or
  a JSON object with whatever stands under \<^verbatim>\<open>"distances"\<close> and \<^verbatim>\<open>"durations"\<close>.  Such a
  value is \<open>JMissing\<close> when the key is absent or the value is \<^verbatim>\<open>null\<close>, not a list, or the
  empty list; \<open>JFlat\<close> when it is a list whose first element is not a list; \<open>JRows\<close> when
  it is a list whose first element is a list.

  The cells are numbers or \<^verbatim>\<open>null\<close>.  A body with a cell of another kind (a string, a
  boolean, a nested value) is not represented: \<^verbatim>\<open>_pick_cell\<close> hands such a cell back
  unchecked, and \<^verbatim>\<open>get_edge\<close> caches and returns it as the answer of the service, so
  nothing that is proved here of a failed query applies to it.
\<close>

datatype py_error = KeyError node

datatype jmat = JMissing | JFlat "real option list" | JRows "real option list list"

datatype osrm_reply =
    RequestFailed
  | HttpNotOk nat
  | HttpOkBadJson
  | HttpOk jmat jmat

record osrm_client =
  coords :: "node \<rightharpoonup> (real \<times> real)"
  cache :: "(node \<times> node) \<rightharpoonup> (real \<times> real)"
  fallback_edges :: "(node \<times> node) set"

definition SHIFT_LIMIT_SEC :: real where
  "SHIFT_LIMIT_SEC = 8 * 3600"

definition FALLBACK_SPEED_MPS :: real where
  "FALLBACK_SPEED_MPS = 1667 / 100"

definition radians :: "real \<Rightarrow> real" where
  "radians x = x * pi / 180"

text \<open>
  \<^verbatim>\<open>
  def haversine_m(lat1, lon1, lat2, lon2):
      R = 6371000.0
      p1, p2 = math.radians(lat1), math.radians(lat2)
      dp, dl = math.radians(lat2-lat1), math.radians(lon2-lon1)
      a = math.sin(dp/2)**2 + math.cos(p1)*math.cos(p2)*math.sin(dl/2)**2
      return 2 * R * math.asin(math.sqrt(a))
  \<close>
  \<^verbatim>\<open>math.sqrt\<close> and \<^verbatim>\<open>math.asin\<close> raise \<^verbatim>\<open>ValueError\<close> outside their domains.  In exact
  arithmetic \<open>a\<close> lies between 0 and 1 and they return.  The float \<open>a\<close> of the source is
  within a few multiples of \<^verbatim>\<open>1e-16\<close> of the exact one, and can exceed 1 when the two points are
  nearly antipodal; then \<^verbatim>\<open>math.asin\<close> raises, and since the fallback of \<^verbatim>\<open>get_edge\<close>
  stands outside its \<^verbatim>\<open>try\<close>, the error leaves \<^verbatim>\<open>get_edge\<close>.  The definition below is
  the exact function; what is proved of the fallback is stated for geographic
  coordinates whose exact \<open>a\<close> is at most \<open>1 - 1 / 10 ^ 9\<close> (points at least some 400 metres away
  from being antipodal), where the float computation returns as well.
\<close>

definition haversine_a :: "real \<Rightarrow> real \<Rightarrow> real \<Rightarrow> real \<Rightarrow> real" where
  "haversine_a lat1 lon1 lat2 lon2 =
     (let p1 = radians lat1; p2 = radians lat2;
          dp = radians (lat2 - lat1); dl = radians (lon2 - lon1)
      in (sin (dp / 2))\<^sup>2 + cos p1 * cos p2 * (sin (dl / 2))\<^sup>2)"

definition haversine_m :: "real \<Rightarrow> real \<Rightarrow> real \<Rightarrow> real \<Rightarrow> real" where
  "haversine_m lat1 lon1 lat2 lon2 =
     2 * 6371000 * arcsin (sqrt (haversine_a lat1 lon1 lat2 lon2))"

text \<open>
  \<^verbatim>\<open>
  def _pick_cell(self, mat):
      if isinstance(mat, list) and mat:
          if isinstance(mat[0], list) and len(mat[0]) >= 2:
              return mat[0][1]
          if not isinstance(mat[0], list):
              return mat[0]
      return None
  \<close>
\<close>

definition pick_cell :: "jmat \<Rightarrow> real option" where
  "pick_cell mat =
     (case mat of
        JMissing \<Rightarrow> None
      | JRows [] \<Rightarrow> None
      | JRows (row # _) \<Rightarrow> (if length row \<ge> 2 then row ! 1 else None)
      | JFlat [] \<Rightarrow> None
      | JFlat (c # _) \<Rightarrow> c)"

text \<open>
  The \<^verbatim>\<open>try\<close> block of \<^verbatim>\<open>get_edge\<close>: the service's metres and seconds when the reply
  is usable, and \<open>None\<close> when the block ends in the \<^verbatim>\<open>except\<close> clause (an exception of
  the request or of \<^verbatim>\<open>r.json()\<close>, the \<^verbatim>\<open>ValueError\<close> raised for a response that is not
  ok or for a missing matrix cell).
\<close>

definition live_query :: "osrm_reply \<Rightarrow> (real \<times> real) option" where
  "live_query reply =
     (case reply of
        HttpOk dists durs \<Rightarrow>
          (case (pick_cell dists, pick_cell durs) of
             (Some d, Some t) \<Rightarrow> Some (d, t)
           | _ \<Rightarrow> None)
      | _ \<Rightarrow> None)"

text \<open>
  \<^verbatim>\<open>
  def get_edge(self, u, v):
      if (u, v) in self.cache:
          return self.cache[(u, v)]
      lat1, lon1 = self.coords[u]
      lat2, lon2 = self.coords[v]
      try:
          r = requests.get(url, timeout=OSRM_TIMEOUT_SEC)
          if r.ok:
              data = r.json()
              d = self._pick_cell(data.get("distances"))
              t = self._pick_cell(data.get("durations"))
              if d is None or t is None:
                  raise ValueError("Bad OSRM response (missing matrix cells)")
              self.cache[(u, v)] = (d, t)
              return d, t
          raise ValueError(...)
      except Exception as e:
          logger.warning(...)
      d = haversine_m(lat1, lon1, lat2, lon2)
      t = d / FALLBACK_SPEED_MPS
      self.fallback_edges.add((u, v))
      self.cache[(u, v)] = (d, t)
      return d, t
  \<close>
  The only exception that leaves the function is the \<^verbatim>\<open>KeyError\<close> of a node without
  coordinates.
\<close>

definition get_edge ::
  "(node \<times> node \<Rightarrow> osrm_reply) \<Rightarrow> osrm_client \<Rightarrow> node \<Rightarrow> node
     \<Rightarrow> py_error + ((real \<times> real) \<times> osrm_client)" where
  "get_edge net osrm u v =
     (case cache osrm (u, v) of
        Some r \<Rightarrow> Inr (r, osrm)
      | None \<Rightarrow>
          (case coords osrm u of
             None \<Rightarrow> Inl (KeyError u)
           | Some (lat1, lon1) \<Rightarrow>
               (case coords osrm v of
                  None \<Rightarrow> Inl (KeyError v)
                | Some (lat2, lon2) \<Rightarrow>
                    (case live_query (net (u, v)) of
                       Some (d, t) \<Rightarrow>
                         Inr ((d, t), osrm\<lparr>cache := (cache osrm)((u, v) \<mapsto> (d, t))\<rparr>)
                     | None \<Rightarrow>
                         (let d = haversine_m lat1 lon1 lat2 lon2;
                              t = d / FALLBACK_SPEED_MPS
                          in Inr ((d, t),
                                  osrm\<lparr>fallback_edges := insert (u, v) (fallback_edges osrm),
                                       cache := (cache osrm)((u, v) \<mapsto> (d, t))\<rparr>))))))"

section \<open>Vehicle routing: validation of a multi-trip route\<close>

text \<open>
  \<^verbatim>\<open>
  def validate_multitrip(route, cap, demand, due, osrm):
      trips = split_into_trips(route, cap, demand)
      total_t = 0.0
      expanded = []
      for i, (trip, load) in enumerate(trips, 1):
          clk = 0.0
          full = [0] + trip + [0]
          expanded.extend(full if not expanded else full[1:])
          for u, v in zip(full, full[1:]):
              _, t = osrm.get_edge(u, v)
              clk += t
              eta_min = clk / 60.0
              is_fallback = hasattr(osrm, "fallback_edges") and (u, v) in osrm.fallback_edges
              if v != 0:
                  node_due = due.get(v, 9999)
                  if eta_min > node_due:
                      if not is_fallback:
                          return False, [], []
          total_t += clk
      if total_t > SHIFT_LIMIT_SEC:
          return False, [], []
      return True, expanded, [n for n in expanded if n != 0]
  \<close>
  The inner loop is \<open>walk_legs\<close>: it returns \<open>None\<close> where the source returns from the
  function inside the loop, and the trip's clock otherwise.  The outer loop is
  \<open>trips_loop\<close>.  The client is threaded through both.
\<close>

fun walk_legs ::
  "(node \<times> node \<Rightarrow> osrm_reply) \<Rightarrow> (node \<rightharpoonup> int) \<Rightarrow> osrm_client \<Rightarrow> real
     \<Rightarrow> (node \<times> node) list \<Rightarrow> py_error + (real option \<times> osrm_client)" where
  "walk_legs net due osrm clk [] = Inr (Some clk, osrm)"
| "walk_legs net due osrm clk ((u, v) # legs) =
     (case get_edge net osrm u v of
        Inl e \<Rightarrow> Inl e
      | Inr ((_, t), osrm') \<Rightarrow>
          (let clk' = clk + t;
               eta_min = clk' / 60;
               is_fallback = ((u, v) \<in> fallback_edges osrm')
           in if v \<noteq> 0 \<and> eta_min > real_of_int (due_get due v) \<and> \<not> is_fallback
              then Inr (None, osrm')
              else walk_legs net due osrm' clk' legs))"

fun trips_loop ::
  "(node \<times> node \<Rightarrow> osrm_reply) \<Rightarrow> (node \<rightharpoonup> int) \<Rightarrow> osrm_client \<Rightarrow> real \<Rightarrow> node list
     \<Rightarrow> trip list \<Rightarrow> py_error + ((real \<times> node list) option \<times> osrm_client)" where
  "trips_loop net due osrm total_t expanded [] = Inr (Some (total_t, expanded), osrm)"
| "trips_loop net due osrm total_t expanded ((trip, load) # trips) =
     (let full = [0] @ trip @ [0];
          expanded' = expanded @ (if expanded = [] then full else tl full)
      in case walk_legs net due osrm 0 (zip full (tl full)) of
           Inl e \<Rightarrow> Inl e
         | Inr (None, osrm') \<Rightarrow> Inr (None, osrm')
         | Inr (Some clk, osrm') \<Rightarrow>
             trips_loop net due osrm' (total_t + clk) expanded' trips)"

definition validate_multitrip ::
  "(node \<times> node \<Rightarrow> osrm_reply) \<Rightarrow> node list \<Rightarrow> int \<Rightarrow> (node \<rightharpoonup> int) \<Rightarrow> (node \<rightharpoonup> int)
     \<Rightarrow> osrm_client \<Rightarrow> py_error + ((bool \<times> node list \<times> node list) \<times> osrm_client)" where
  "validate_multitrip net route cap demand due osrm =
     (case trips_loop net due osrm 0 [] (split_into_trips route cap demand) of
        Inl e \<Rightarrow> Inl e
      | Inr (None, osrm') \<Rightarrow> Inr ((False, [], []), osrm')
      | Inr (Some (total_t, expanded), osrm') \<Rightarrow>
          if total_t > SHIFT_LIMIT_SEC then Inr ((False, [], []), osrm')
          else Inr ((True, expanded, filter (\<lambda>n. n \<noteq> 0) expanded), osrm'))"

subsection \<open>When the map service fails, and a client of two nodes\<close>



section \<open>Vehicle routing: what a validation sees of the client\<close>

text \<open>
  A call of \<^verbatim>\<open>get_edge\<close> changes the client (it fills the cache and the set of fallback
  edges), but never what a later call answers for any edge.  \<open>edge_view\<close> is what the
  loop of \<^verbatim>\<open>validate_multitrip\<close> reads for one edge in a given state of the client: the
  duration and whether the edge is in \<^verbatim>\<open>fallback_edges\<close> after the call.
\<close>

definition edge_view ::
  "(node \<times> node \<Rightarrow> osrm_reply) \<Rightarrow> osrm_client \<Rightarrow> node \<times> node \<Rightarrow> py_error + (real \<times> bool)" where
  "edge_view net osrm e =
     (case get_edge net osrm (fst e) (snd e) of
        Inl err \<Rightarrow> Inl err
      | Inr ((d, t), osrm') \<Rightarrow> Inr (t, e \<in> fallback_edges osrm'))"

definition edge_duration :: "(node \<times> node \<Rightarrow> osrm_reply) \<Rightarrow> osrm_client \<Rightarrow> node \<times> node \<Rightarrow> real" where
  "edge_duration net osrm e = (case edge_view net osrm e of Inr (t, fb) \<Rightarrow> t | Inl err \<Rightarrow> 0)"

definition edge_is_fallback :: "(node \<times> node \<Rightarrow> osrm_reply) \<Rightarrow> osrm_client \<Rightarrow> node \<times> node \<Rightarrow> bool" where
  "edge_is_fallback net osrm e = (case edge_view net osrm e of Inr (t, fb) \<Rightarrow> fb | Inl err \<Rightarrow> False)"

text \<open>
  The legs of one trip, \<^verbatim>\<open>zip(full, full[1:])\<close> for \<^verbatim>\<open>full = [0] + trip + [0]\<close>; the
  trip's clock after leg \<open>k\<close>, which starts at zero in every trip; a late arrival at a
  customer, \<^verbatim>\<open>v != 0\<close> and \<^verbatim>\<open>clk / 60 > due.get(v, 9999)\<close>; the seconds of one trip and of
  all trips of the route.
\<close>

definition trip_legs :: "node list \<Rightarrow> (node \<times> node) list" where
  "trip_legs trip = zip ([0] @ trip @ [0]) (tl ([0] @ trip @ [0]))"

definition arrival_clock :: "(node \<times> node \<Rightarrow> real) \<Rightarrow> (node \<times> node) list \<Rightarrow> nat \<Rightarrow> real" where
  "arrival_clock dur legs k = sum_list (map dur (take (Suc k) legs))"

definition late_at ::
  "(node \<times> node \<Rightarrow> real) \<Rightarrow> (node \<rightharpoonup> int) \<Rightarrow> (node \<times> node) list \<Rightarrow> nat \<Rightarrow> bool" where
  "late_at dur due legs k =
     (k < length legs \<and> snd (legs ! k) \<noteq> 0 \<and>
      arrival_clock dur legs k / 60 > real_of_int (due_get due (snd (legs ! k))))"

definition trip_time :: "(node \<times> node \<Rightarrow> real) \<Rightarrow> node list \<Rightarrow> real" where
  "trip_time dur trip = sum_list (map dur (trip_legs trip))"

definition shift_time :: "(node \<times> node \<Rightarrow> real) \<Rightarrow> trip list \<Rightarrow> real" where
  "shift_time dur trips = sum_list (map (\<lambda>t. trip_time dur (fst t)) trips)"

definition strict_late ::
  "(node \<times> node \<Rightarrow> real) \<Rightarrow> (node \<times> node \<Rightarrow> bool) \<Rightarrow> (node \<rightharpoonup> int) \<Rightarrow> trip list \<Rightarrow> bool" where
  "strict_late dur fb due trips =
     (\<exists>t \<in> set trips. \<exists>k. late_at dur due (trip_legs (fst t)) k \<and> \<not> fb (trip_legs (fst t) ! k))"

text \<open>
  The two loops of \<^verbatim>\<open>validate_multitrip\<close> over a fixed view of the edges, and the
  path that the outer loop accumulates in \<^verbatim>\<open>expanded\<close>.
\<close>

fun walk_pure ::
  "(node \<times> node \<Rightarrow> real) \<Rightarrow> (node \<times> node \<Rightarrow> bool) \<Rightarrow> (node \<rightharpoonup> int) \<Rightarrow> real
     \<Rightarrow> (node \<times> node) list \<Rightarrow> real option" where
  "walk_pure dur fb due clk [] = Some clk"
| "walk_pure dur fb due clk (e # legs) =
     (let clk' = clk + dur e
      in if snd e \<noteq> 0 \<and> clk' / 60 > real_of_int (due_get due (snd e)) \<and> \<not> fb e
         then None
         else walk_pure dur fb due clk' legs)"

fun trips_pure ::
  "(node \<times> node \<Rightarrow> real) \<Rightarrow> (node \<times> node \<Rightarrow> bool) \<Rightarrow> (node \<rightharpoonup> int) \<Rightarrow> real \<Rightarrow> node list
     \<Rightarrow> trip list \<Rightarrow> (real \<times> node list) option" where
  "trips_pure dur fb due total_t expanded [] = Some (total_t, expanded)"
| "trips_pure dur fb due total_t expanded (t # trips) =
     (let full = [0] @ fst t @ [0];
          expanded' = expanded @ (if expanded = [] then full else tl full)
      in case walk_pure dur fb due 0 (zip full (tl full)) of
           None \<Rightarrow> None
         | Some clk \<Rightarrow> trips_pure dur fb due (total_t + clk) expanded' trips)"

definition validate_pure ::
  "(node \<times> node \<Rightarrow> real) \<Rightarrow> (node \<times> node \<Rightarrow> bool) \<Rightarrow> node list \<Rightarrow> int \<Rightarrow> (node \<rightharpoonup> int)
     \<Rightarrow> (node \<rightharpoonup> int) \<Rightarrow> bool \<times> node list \<times> node list" where
  "validate_pure dur fb route cap demand due =
     (case trips_pure dur fb due 0 [] (split_into_trips route cap demand) of
        None \<Rightarrow> (False, [], [])
      | Some (total_t, expanded) \<Rightarrow>
          if total_t > SHIFT_LIMIT_SEC then (False, [], [])
          else (True, expanded, filter (\<lambda>n. n \<noteq> 0) expanded))"

definition same_edges :: "(node \<times> node \<Rightarrow> osrm_reply) \<Rightarrow> osrm_client \<Rightarrow> osrm_client \<Rightarrow> bool" where
  "same_edges net osrm osrm' = (edge_view net osrm' = edge_view net osrm \<and> coords osrm' = coords osrm)"

fun stitch :: "node list \<Rightarrow> trip list \<Rightarrow> node list" where
  "stitch expanded [] = expanded"
| "stitch expanded (t # trips) =
     stitch (expanded @ (if expanded = [] then [0] @ fst t @ [0] else tl ([0] @ fst t @ [0]))) trips"

subsection \<open>Sample map services and clients\<close>

text \<open>
  A map service that answers every query with 2500 metres and \<open>secs\<close> seconds, one that
  never answers, a client that has not asked anything yet, and two small networks: the
  depot at \<open>(0, 0)\<close> with a customer one degree to the east, and the same with a second
  customer one degree to the north.
\<close>

definition live_net :: "real \<Rightarrow> node \<times> node \<Rightarrow> osrm_reply" where
  "live_net secs e = HttpOk (JRows [[Some 0, Some 2500]]) (JRows [[Some 0, Some secs]])"


definition fresh_client :: "(node \<rightharpoonup> (real \<times> real)) \<Rightarrow> osrm_client" where
  "fresh_client cs = \<lparr>coords = cs, cache = Map.empty, fallback_edges = {}\<rparr>"

definition one_customer :: osrm_client where
  "one_customer = fresh_client [0 \<mapsto> (0, 0), 1 \<mapsto> (0, 1)]"

definition two_customers :: osrm_client where
  "two_customers = fresh_client [0 \<mapsto> (0, 0), 1 \<mapsto> (0, 1), 2 \<mapsto> (1, 0)]"

section \<open>Vehicle routing: merging routes\<close>

text \<open>
  \<^verbatim>\<open>
  def combine_and_validate_multitrip(routes, cap, demand, due, osrm):
      raw=[r for r in routes if r]
      merged=True
      while merged:
          merged=False
          for i in range(len(raw)):
              for j in range(i+1,len(raw)):
                  cand=raw[i]+raw[j]
                  ok,_,rw=validate_multitrip(cand,cap,demand,due,osrm)
                  if ok:
                      raw.pop(j)
                      raw.pop(i)
                      raw.append(rw)
                      merged=True
                      break
              if merged:
                  break
      final=[]
      for r in raw:
          ok,exp,_=validate_multitrip(r,cap,demand,due,osrm)
          if ok:
              final.append(exp)
      return final
  \<close>
  One pass of the two \<^verbatim>\<open>for\<close> loops visits the pairs \<open>(i, j)\<close> with \<open>i < j < len(raw)\<close> in
  lexicographic order and stops at the first pair whose concatenation validates;
  \<open>index_pairs\<close> is that order and \<open>scan_pairs\<close> the pass, which threads the client through
  the calls of \<^verbatim>\<open>validate_multitrip\<close> and reports the pair it stopped at together with
  \<^verbatim>\<open>rw\<close>.  \<^verbatim>\<open>raw.pop(k)\<close> is only called with an index of the list.  The \<^verbatim>\<open>while\<close> loop is
  \<open>merge_loop\<close>; every round that merges makes \<^verbatim>\<open>raw\<close> one route shorter.
\<close>

definition pop :: "nat \<Rightarrow> 'a list \<Rightarrow> 'a list" where
  "pop k xs = take k xs @ drop (Suc k) xs"

definition index_pairs :: "nat \<Rightarrow> (nat \<times> nat) list" where
  "index_pairs n = concat (map (\<lambda>i. map (\<lambda>j. (i, j)) [Suc i..<n]) [0..<n])"

fun scan_pairs ::
  "(node \<times> node \<Rightarrow> osrm_reply) \<Rightarrow> int \<Rightarrow> (node \<rightharpoonup> int) \<Rightarrow> (node \<rightharpoonup> int) \<Rightarrow> osrm_client
     \<Rightarrow> node list list \<Rightarrow> (nat \<times> nat) list
     \<Rightarrow> py_error + ((nat \<times> nat \<times> node list) option \<times> osrm_client)" where
  "scan_pairs net cap demand due osrm raw [] = Inr (None, osrm)"
| "scan_pairs net cap demand due osrm raw ((i, j) # ps) =
     (case validate_multitrip net (raw ! i @ raw ! j) cap demand due osrm of
        Inl e \<Rightarrow> Inl e
      | Inr ((ok, _, rw), osrm') \<Rightarrow>
          if ok then Inr (Some (i, j, rw), osrm')
          else scan_pairs net cap demand due osrm' raw ps)"

function merge_loop ::
  "(node \<times> node \<Rightarrow> osrm_reply) \<Rightarrow> int \<Rightarrow> (node \<rightharpoonup> int) \<Rightarrow> (node \<rightharpoonup> int) \<Rightarrow> osrm_client
     \<Rightarrow> node list list \<Rightarrow> py_error + (node list list \<times> osrm_client)" where
  "merge_loop net cap demand due osrm raw =
     (case scan_pairs net cap demand due osrm raw (index_pairs (length raw)) of
        Inl e \<Rightarrow> Inl e
      | Inr (None, osrm') \<Rightarrow> Inr (raw, osrm')
      | Inr (Some (i, j, rw), osrm') \<Rightarrow>
          merge_loop net cap demand due osrm' (pop i (pop j raw) @ [rw]))"
  by pat_completeness auto

termination
proof -
  have found: "(i, j) \<in> set ps"
    if "scan_pairs net cap demand due osrm raw ps = Inr (Some (i, j, rw), osrm')"
    for net cap demand due osrm raw ps i j rw osrm'
    using that
    by (induction ps arbitrary: osrm) (fastforce split: sum.splits prod.splits if_splits)+
  have shorter: "length (pop i (pop j raw) @ [rw]) < length raw"
    if "(i, j) \<in> set (index_pairs (length raw))" for i j rw and raw :: "node list list"
    using that by (auto simp: index_pairs_def pop_def)
  show ?thesis
    by (relation "measure (\<lambda>(net, cap, demand, due, osrm, raw). length raw)")
       (use found shorter in \<open>auto simp del: length_append\<close>)
qed

declare merge_loop.simps [simp del]

fun final_loop ::
  "(node \<times> node \<Rightarrow> osrm_reply) \<Rightarrow> int \<Rightarrow> (node \<rightharpoonup> int) \<Rightarrow> (node \<rightharpoonup> int) \<Rightarrow> osrm_client
     \<Rightarrow> node list list \<Rightarrow> node list list \<Rightarrow> py_error + (node list list \<times> osrm_client)" where
  "final_loop net cap demand due osrm final [] = Inr (final, osrm)"
| "final_loop net cap demand due osrm final (r # raw) =
     (case validate_multitrip net r cap demand due osrm of
        Inl e \<Rightarrow> Inl e
      | Inr ((ok, expanded, _), osrm') \<Rightarrow>
          final_loop net cap demand due osrm' (if ok then final @ [expanded] else final) raw)"

definition combine_and_validate_multitrip ::
  "(node \<times> node \<Rightarrow> osrm_reply) \<Rightarrow> node list list \<Rightarrow> int \<Rightarrow> (node \<rightharpoonup> int) \<Rightarrow> (node \<rightharpoonup> int)
     \<Rightarrow> osrm_client \<Rightarrow> py_error + (node list list \<times> osrm_client)" where
  "combine_and_validate_multitrip net routes cap demand due osrm =
     (case merge_loop net cap demand due osrm (filter (\<lambda>r. r \<noteq> []) routes) of
        Inl e \<Rightarrow> Inl e
      | Inr (raw, osrm') \<Rightarrow> final_loop net cap demand due osrm' [] raw)"

text \<open>
  The verdict of \<^verbatim>\<open>validate_multitrip\<close> on a route in a given state of the client, the
  path it returns for an accepted route, and the routes that the merge is called with:
  sequences of customers, without the depot, whose nodes have coordinates.
\<close>

definition route_ok ::
  "(node \<times> node \<Rightarrow> osrm_reply) \<Rightarrow> osrm_client \<Rightarrow> int \<Rightarrow> (node \<rightharpoonup> int) \<Rightarrow> (node \<rightharpoonup> int)
     \<Rightarrow> node list \<Rightarrow> bool" where
  "route_ok net osrm cap demand due route =
     (\<not> strict_late (edge_duration net osrm) (edge_is_fallback net osrm) due
          (split_into_trips route cap demand)
      \<and> shift_time (edge_duration net osrm) (split_into_trips route cap demand)
          \<le> SHIFT_LIMIT_SEC)"

definition expanded_path :: "node list \<Rightarrow> int \<Rightarrow> (node \<rightharpoonup> int) \<Rightarrow> node list" where
  "expanded_path route cap demand = stitch [] (split_into_trips route cap demand)"

definition clean_routes :: "osrm_client \<Rightarrow> node list list \<Rightarrow> bool" where
  "clean_routes osrm raw =
     (\<forall>r \<in> set raw. r \<noteq> [] \<and> 0 \<notin> set r \<and> set r \<subseteq> dom (coords osrm))"

section \<open>Properties of the trip splitter\<close>

lemma split_loop_inv:
  assumes "list_all (trip_ok demand cap) trips"
    and "load = trip_demand demand cur"
    and "length cur \<le> 1 \<or> load \<le> cap"
  shows "list_all (trip_ok demand cap) (split_loop demand cap cs trips cur load)"
  using assms
proof (induction cs arbitrary: trips cur load)
  case Nil
  then show ?case
    by (cases cur) (auto simp: trip_ok_def)
next
  case (Cons c cs)
  let ?d = "demand_get demand c"
  show ?case
  proof (cases "cur \<noteq> [] \<and> load + ?d > cap")
    case True
    have closed: "trip_ok demand cap (cur, load)"
      using True Cons.prems(2,3) by (cases cur) (auto simp: trip_ok_def)
    have "list_all (trip_ok demand cap)
            (split_loop demand cap cs (trips @ [(cur, load)]) ([] @ [c]) (0 + ?d))"
      by (rule Cons.IH) (use Cons.prems(1) closed in \<open>auto simp: trip_demand_def\<close>)
    with True show ?thesis by simp
  next
    case False
    have "list_all (trip_ok demand cap)
            (split_loop demand cap cs trips (cur @ [c]) (load + ?d))"
    proof (rule Cons.IH)
      show "list_all (trip_ok demand cap) trips" by (rule Cons.prems(1))
      show "load + ?d = trip_demand demand (cur @ [c])"
        using Cons.prems(2) by (simp add: trip_demand_def)
      show "length (cur @ [c]) \<le> 1 \<or> load + ?d \<le> cap"
        using False by (cases cur) auto
    qed
    with False show ?thesis by (auto simp: Let_def)
  qed
qed

lemma split_loop_concat:
  "concat (map fst (split_loop demand cap cs trips cur load))
     = concat (map fst trips) @ cur @ cs"
  by (induction cs arbitrary: trips cur load) (auto simp: Let_def)

lemma split_into_trips_concat:
  "concat (map fst (split_into_trips route cap demand)) = route"
  by (simp add: split_into_trips_def split_loop_concat)

lemma split_into_trips_all_ok:
  "list_all (trip_ok demand cap) (split_into_trips route cap demand)"
  unfolding split_into_trips_def
  by (rule split_loop_inv) (simp_all add: trip_demand_def)

text \<open>
  Claim C6, as the code has it.  Every trip that \<^verbatim>\<open>split_into_trips\<close> produces is
  non-empty and carries as its load the sum of the demands of its customers; that load
  is at most the capacity unless the trip consists of one single customer (the guard
  \<^verbatim>\<open>if cur and ...\<close> never closes an empty trip, so a customer whose demand alone
  exceeds the capacity travels alone).
\<close>

theorem split_into_trips_capacity:
  "\<forall>t \<in> set (split_into_trips route cap demand).
     fst t \<noteq> [] \<and> snd t = trip_demand demand (fst t) \<and>
     (trip_demand demand (fst t) \<le> cap \<or> length (fst t) = 1)"
  using split_into_trips_all_ok [of demand cap route]
  by (auto simp: list_all_iff trip_ok_def)

theorem split_into_trips_capacity_witness:
  "([1, 2], 5) \<in> set (split_into_trips [1, 2, 3] 5 [1 \<mapsto> 2, 2 \<mapsto> 3, 3 \<mapsto> 9])
   \<and> trip_demand [1 \<mapsto> 2, 2 \<mapsto> 3, 3 \<mapsto> 9] [1, 2] = 5
   \<and> ([3], 9) \<in> set (split_into_trips [1, 2, 3] 5 [1 \<mapsto> 2, 2 \<mapsto> 3, 3 \<mapsto> 9])
   \<and> trip_demand [1 \<mapsto> 2, 2 \<mapsto> 3, 3 \<mapsto> 9] [3] = 9
   \<and> length [3 :: int] = 1"
  using split_into_trips_capacity [of "[1, 2, 3]" 5 "[1 \<mapsto> 2, 2 \<mapsto> 3, 3 \<mapsto> 9]"]
  by (simp add: split_into_trips_def demand_get_def)

text \<open>
  Claim C6 as stated fails: a route of one customer of demand 10 and a capacity of 5
  yields the trip \<open>([1], 10)\<close>, whose demand exceeds the capacity.
\<close>

theorem split_into_trips_capacity_counterexample:
  "\<not> (\<forall>t \<in> set (split_into_trips [1] 5 [1 \<mapsto> 10]).
        trip_demand [1 \<mapsto> 10] (fst t) \<le> 5)"
  by (simp add: split_into_trips_def demand_get_def trip_demand_def)

section \<open>Properties of the stability monitor\<close>

subsection \<open>The dashboard guard\<close>

text \<open>
  Claim C10.  For a telemetry update on an order whose monitoring is started and active:
  when the order has no row in the \<^verbatim>\<open>Order\<close> table, or its row has no \<^verbatim>\<open>dashboard_id\<close>,
  \<^verbatim>\<open>update_stability\<close> raises HTTP 400 whatever the temperature is, and the server state
  is left as it was.  In particular no alert is produced for a reading above
  \<^verbatim>\<open>max_excursion_temp\<close>.
\<close>

theorem update_stability_no_dashboard:
  assumes "STABILITY_STATE sv oid = Some st" and "active st"
    and "order_dashboard sv oid = NoRow \<or> order_dashboard sv oid = Row None"
  shows "update_stability sv oid temp now_start now
           = (Inl (HTTPException 400 ''Order has no dashboard''), sv)"
  using assms by (auto simp: update_stability_def dashboard_of_def)

text \<open>The guard at work: 16 degrees against a limit of 15, and no row for the order.\<close>

theorem update_stability_no_dashboard_witness:
  "STABILITY_STATE (demo_server demo_entry NoRow) ''ORD-1'' = Some demo_entry
   \<and> active demo_entry \<and> max_exc demo_entry < 16
   \<and> order_dashboard (demo_server demo_entry NoRow) ''ORD-1'' = NoRow
   \<and> update_stability (demo_server demo_entry NoRow) ''ORD-1'' 16 0 0
       = (Inl (HTTPException 400 ''Order has no dashboard''), demo_server demo_entry NoRow)"
  using update_stability_no_dashboard [of "demo_server demo_entry NoRow" "''ORD-1''" demo_entry 16 0 0]
  by (simp add: demo_server_def demo_entry_def)

subsection \<open>Maximum excursion\<close>

text \<open>
  Claim C2, as the code has it.  For an active monitored order whose \<^verbatim>\<open>Order\<close> row carries
  a dashboard id, a reading strictly above the medication's \<^verbatim>\<open>max_excursion_temp\<close> makes
  \<^verbatim>\<open>update_stability\<close> return the alert \<^verbatim>\<open>MAX_EXCURSION_EXCEEDED\<close> and set \<^verbatim>\<open>active\<close> to
  false, whether or not the timer was started; nothing else changes: the timer fields
  are untouched and no row is written to the dashboard.
\<close>

theorem update_stability_max_excursion:
  assumes "STABILITY_STATE sv oid = Some st" and "active st"
    and "order_dashboard sv oid = Row (Some d)" and "d \<noteq> []"
    and "temp > max_exc st"
  shows "update_stability sv oid temp now_start now
           = (Inr (Alert ''MAX_EXCURSION_EXCEEDED''),
              sv\<lparr>STABILITY_STATE := (STABILITY_STATE sv)(oid \<mapsto> st\<lparr>active := False\<rparr>)\<rparr>)"
  using assms by (simp add: update_stability_def dashboard_of_def)

text \<open>With the timer already running, 16 degrees ends the monitoring at once.\<close>

theorem update_stability_max_excursion_witness:
  "update_stability (demo_server running_entry (Row (Some ''D1''))) ''ORD-1'' 16 50 50
   = (Inr (Alert ''MAX_EXCURSION_EXCEEDED''),
      demo_server (running_entry\<lparr>active := False\<rparr>) (Row (Some ''D1'')))"
  using update_stability_max_excursion
    [of "demo_server running_entry (Row (Some ''D1''))" "''ORD-1''" running_entry "''D1''" 16 50 50]
  by (simp add: demo_server_def demo_entry_def running_entry_def)

text \<open>
  Claim C2 as stated, for every active order, fails: for an active order whose row has
  no dashboard id, a reading of 16 degrees against a limit of 15 gives no alert and
  leaves the order active.
\<close>

theorem update_stability_max_excursion_counterexample:
  "STABILITY_STATE (demo_server demo_entry (Row None)) ''ORD-1'' = Some demo_entry
   \<and> active demo_entry \<and> max_exc demo_entry < 16
   \<and> fst (update_stability (demo_server demo_entry (Row None)) ''ORD-1'' 16 0 0)
        \<noteq> Inr (Alert ''MAX_EXCURSION_EXCEEDED'')
   \<and> STABILITY_STATE (snd (update_stability (demo_server demo_entry (Row None)) ''ORD-1'' 16 0 0))
        ''ORD-1'' = Some demo_entry"
  by (simp add: update_stability_def dashboard_of_def demo_server_def demo_entry_def)

subsection \<open>Expiry and timer start: what the countdown branch returns\<close>

text \<open>
  Claim C3, evaluated on the code.  The timer of order \<open>ORD-1\<close> was started at time 0 with
  1800 seconds allowed; an update at time 1900 with 9 degrees deactivates the order, but
  the response is \<^verbatim>\<open>{"remaining_seconds": 0, "written_to_dashboard": True}\<close>, not an alert.
\<close>

theorem update_stability_expiry_reports_zero:
  "update_stability (demo_server running_entry (Row (Some ''D1''))) ''ORD-1'' 9 1900 1900
   = (Inr (RemainingSeconds 0 True),
      (demo_server (running_entry\<lparr>active := False\<rparr>) (Row (Some ''D1'')))
        \<lparr>estimated_stability_time := [(''D1'', 0)]\<rparr>)"
  by (simp add: update_stability_def dashboard_of_def demo_server_def demo_entry_def
        running_entry_def FRIDGE_MAX_def)

text \<open>
  Claim C9, evaluated on the code.  The timer of order \<open>ORD-1\<close> is not started; an update
  with 9 degrees (above the fridge maximum 8, below the limit 15) at time 100 starts the
  timer at 100, and then falls through to the countdown branch: the response is
  \<^verbatim>\<open>{"remaining_seconds": 1800, "written_to_dashboard": True}\<close>.
\<close>

theorem update_stability_timer_start_reports_remaining:
  "update_stability (demo_server demo_entry (Row (Some ''D1''))) ''ORD-1'' 9 100 100
   = (Inr (RemainingSeconds 1800 True),
      (demo_server (demo_entry\<lparr>timer_started := True, timer_started_at := Some 100\<rparr>)
        (Row (Some ''D1'')))\<lparr>estimated_stability_time := [(''D1'', 1800)]\<rparr>)"
  by (simp add: update_stability_def dashboard_of_def demo_server_def demo_entry_def
        FRIDGE_MAX_def py_int_def)

subsection \<open>The timer never resets\<close>








section \<open>Properties of the routing client\<close>

subsection \<open>The range of the great-circle distance\<close>
















section \<open>Properties of the validation\<close>

subsection \<open>The client's answers do not change\<close>

lemma same_edges_refl: "same_edges net osrm osrm"
  by (simp add: same_edges_def)

lemma same_edges_trans:
  "same_edges net a b \<Longrightarrow> same_edges net b c \<Longrightarrow> same_edges net a c"
  by (simp add: same_edges_def)

lemma same_edges_duration: "same_edges net osrm osrm' \<Longrightarrow> edge_duration net osrm' = edge_duration net osrm"
  by (rule ext) (simp add: same_edges_def edge_duration_def)

lemma same_edges_fallback: "same_edges net osrm osrm' \<Longrightarrow> edge_is_fallback net osrm' = edge_is_fallback net osrm"
  by (rule ext) (simp add: same_edges_def edge_is_fallback_def)

lemma get_edge_total:
  assumes "u \<in> dom (coords osrm)" and "v \<in> dom (coords osrm)"
  shows "\<exists>d t osrm'. get_edge net osrm u v = Inr ((d, t), osrm')"
proof (cases "cache osrm (u, v)")
  case (Some r)
  then show ?thesis by (cases r) (simp add: get_edge_def)
next
  case None
  from assms obtain p q where "coords osrm u = Some p" "coords osrm v = Some q" by auto
  with None show ?thesis
    by (cases p, cases q, cases "live_query (net (u, v))")
       (auto simp: get_edge_def Let_def)
qed

lemma get_edge_view:
  assumes "get_edge net osrm u v = Inr ((d, t), osrm')"
  shows "edge_duration net osrm (u, v) = t"
    and "edge_is_fallback net osrm (u, v) = ((u, v) \<in> fallback_edges osrm')"
  using assms by (simp_all add: edge_duration_def edge_is_fallback_def edge_view_def)

lemma get_edge_frame:
  assumes "get_edge net osrm u v = Inr (r, osrm')"
  shows "coords osrm' = coords osrm"
    and "cache osrm' (u, v) = Some r"
    and "e \<noteq> (u, v) \<Longrightarrow> cache osrm' e = cache osrm e"
    and "e \<noteq> (u, v) \<Longrightarrow> (e \<in> fallback_edges osrm') = (e \<in> fallback_edges osrm)"
  using assms
  by (auto simp: get_edge_def Let_def split: option.splits prod.splits)

lemma edge_view_alt:
  "edge_view net osrm e =
     (case cache osrm e of
        Some r \<Rightarrow> Inr (snd r, e \<in> fallback_edges osrm)
      | None \<Rightarrow>
          (case coords osrm (fst e) of
             None \<Rightarrow> Inl (KeyError (fst e))
           | Some p \<Rightarrow>
               (case coords osrm (snd e) of
                  None \<Rightarrow> Inl (KeyError (snd e))
                | Some q \<Rightarrow>
                    (case live_query (net e) of
                       Some r \<Rightarrow> Inr (snd r, e \<in> fallback_edges osrm)
                     | None \<Rightarrow>
                         Inr (haversine_m (fst p) (snd p) (fst q) (snd q) / FALLBACK_SPEED_MPS,
                              True)))))"
  by (cases e)
     (simp add: edge_view_def get_edge_def Let_def split: option.splits prod.splits)

lemma get_edge_stable:
  assumes "get_edge net osrm u v = Inr (r, osrm')"
  shows "same_edges net osrm osrm'"
proof -
  note fr = get_edge_frame [OF assms]
  have "edge_view net osrm' e = edge_view net osrm e" for e
  proof (cases "e = (u, v)")
    case True
    have "edge_view net osrm' e = Inr (snd r, e \<in> fallback_edges osrm')"
      using fr(2) True by (simp add: edge_view_alt)
    moreover have "edge_view net osrm e = Inr (snd r, e \<in> fallback_edges osrm')"
      using assms True by (cases r) (simp add: edge_view_def)
    ultimately show ?thesis by simp
  next
    case False
    show ?thesis
      unfolding edge_view_alt fr(1) fr(3) [OF False] fr(4) [OF False] ..
  qed
  then show ?thesis using fr(1) by (auto simp: same_edges_def)
qed

lemma walk_legs_pure:
  assumes "\<forall>e \<in> set legs. fst e \<in> dom (coords osrm) \<and> snd e \<in> dom (coords osrm)"
  shows "\<exists>osrm'. walk_legs net due osrm clk legs
                   = Inr (walk_pure (edge_duration net osrm) (edge_is_fallback net osrm) due clk legs, osrm')
               \<and> same_edges net osrm osrm'"
  using assms
proof (induction legs arbitrary: osrm clk)
  case Nil
  then show ?case by (simp add: same_edges_refl)
next
  case (Cons e legs)
  obtain u v where e: "e = (u, v)" by (cases e)
  from Cons.prems e obtain d t osrm1 where g: "get_edge net osrm u v = Inr ((d, t), osrm1)"
    using get_edge_total [of u osrm v net] by auto
  note s1 = get_edge_stable [OF g]
  have c1: "coords osrm1 = coords osrm" using s1 by (simp add: same_edges_def)
  have "\<forall>e \<in> set legs. fst e \<in> dom (coords osrm1) \<and> snd e \<in> dom (coords osrm1)"
    using Cons.prems c1 by simp
  from Cons.IH [OF this, of "clk + t"] obtain osrm2 where
    w: "walk_legs net due osrm1 (clk + t) legs
          = Inr (walk_pure (edge_duration net osrm1) (edge_is_fallback net osrm1) due (clk + t) legs, osrm2)"
    and s2: "same_edges net osrm1 osrm2"
    by blast
  have w': "walk_legs net due osrm1 (clk + t) legs
          = Inr (walk_pure (edge_duration net osrm) (edge_is_fallback net osrm) due (clk + t) legs, osrm2)"
    using w by (simp add: same_edges_duration [OF s1] same_edges_fallback [OF s1])
  show ?case
  proof (cases "v \<noteq> 0 \<and> (clk + t) / 60 > real_of_int (due_get due v) \<and> (u, v) \<notin> fallback_edges osrm1")
    case True
    then show ?thesis
      using g s1 by (auto simp: e get_edge_view [OF g] Let_def)
  next
    case False
    then have "walk_legs net due osrm clk (e # legs)
                 = Inr (walk_pure (edge_duration net osrm) (edge_is_fallback net osrm) due clk (e # legs), osrm2)"
      using g w' by (auto simp: e get_edge_view [OF g] Let_def)
    with same_edges_trans [OF s1 s2] show ?thesis by blast
  qed
qed

lemma trip_legs_nodes:
  assumes "e \<in> set (trip_legs trip)"
  shows "fst e \<in> insert 0 (set trip) \<and> snd e \<in> insert 0 (set trip)"
proof -
  obtain u v where e: "e = (u, v)" by (cases e)
  from assms have m: "(u, v) \<in> set (zip (0 # trip @ [0]) (trip @ [0]))"
    by (simp add: trip_legs_def e)
  have "u \<in> set (0 # trip @ [0])" by (rule set_zip_leftD [OF m])
  moreover have "v \<in> set (trip @ [0])" by (rule set_zip_rightD [OF m])
  ultimately show ?thesis by (auto simp: e)
qed

lemma trips_loop_pure:
  assumes "0 \<in> dom (coords osrm)" and "\<forall>t \<in> set trips. set (fst t) \<subseteq> dom (coords osrm)"
  shows "\<exists>osrm'. trips_loop net due osrm total_t expanded trips
                   = Inr (trips_pure (edge_duration net osrm) (edge_is_fallback net osrm) due
                            total_t expanded trips, osrm')
               \<and> same_edges net osrm osrm'"
  using assms
proof (induction trips arbitrary: osrm total_t expanded)
  case Nil
  then show ?case by (simp add: same_edges_refl)
next
  case (Cons t trips)
  obtain trip load where t: "t = (trip, load)" by (cases t)
  let ?full = "[0] @ trip @ [0]"
  let ?legs = "zip ?full (tl ?full)"
  have legs: "?legs = trip_legs trip" by (simp add: trip_legs_def)
  have known: "\<forall>e \<in> set ?legs. fst e \<in> dom (coords osrm) \<and> snd e \<in> dom (coords osrm)"
  proof
    fix e assume "e \<in> set ?legs"
    then have "fst e \<in> insert 0 (set trip) \<and> snd e \<in> insert 0 (set trip)"
      unfolding legs by (rule trip_legs_nodes)
    with Cons.prems t show "fst e \<in> dom (coords osrm) \<and> snd e \<in> dom (coords osrm)"
      by auto
  qed
  from walk_legs_pure [OF known, of net due 0] obtain osrm1 where
    w: "walk_legs net due osrm 0 ?legs
          = Inr (walk_pure (edge_duration net osrm) (edge_is_fallback net osrm) due 0 ?legs, osrm1)"
    and s1: "same_edges net osrm osrm1"
    by blast
  show ?case
  proof (cases "walk_pure (edge_duration net osrm) (edge_is_fallback net osrm) due 0 ?legs")
    case None
    with w s1 show ?thesis by (auto simp: t)
  next
    case (Some clk)
    let ?ex = "expanded @ (if expanded = [] then ?full else tl ?full)"
    have c1: "coords osrm1 = coords osrm" using s1 by (simp add: same_edges_def)
    have "0 \<in> dom (coords osrm1)" "\<forall>t \<in> set trips. set (fst t) \<subseteq> dom (coords osrm1)"
      using Cons.prems c1 by simp_all
    from Cons.IH [OF this, of "total_t + clk" ?ex] obtain osrm2 where
      r: "trips_loop net due osrm1 (total_t + clk) ?ex trips
            = Inr (trips_pure (edge_duration net osrm1) (edge_is_fallback net osrm1) due
                     (total_t + clk) ?ex trips, osrm2)"
      and s2: "same_edges net osrm1 osrm2"
      by blast
    have "trips_loop net due osrm total_t expanded (t # trips)
            = Inr (trips_pure (edge_duration net osrm) (edge_is_fallback net osrm) due
                     total_t expanded (t # trips), osrm2)"
      using w Some r
      by (cases "expanded = []")
         (simp_all add: t Let_def same_edges_duration [OF s1] same_edges_fallback [OF s1])
    with same_edges_trans [OF s1 s2] show ?thesis by blast
  qed
qed

lemma split_into_trips_nodes:
  assumes "t \<in> set (split_into_trips route cap demand)"
  shows "set (fst t) \<subseteq> set route"
proof -
  have "set (fst t) \<subseteq> set (concat (map fst (split_into_trips route cap demand)))"
    using assms by auto
  then show ?thesis by (simp only: split_into_trips_concat)
qed

lemma validate_multitrip_pure:
  assumes "0 \<in> dom (coords osrm)" and "set route \<subseteq> dom (coords osrm)"
  shows "\<exists>osrm'. validate_multitrip net route cap demand due osrm
                   = Inr (validate_pure (edge_duration net osrm) (edge_is_fallback net osrm)
                            route cap demand due, osrm')
               \<and> same_edges net osrm osrm'"
proof -
  have "\<forall>t \<in> set (split_into_trips route cap demand). set (fst t) \<subseteq> dom (coords osrm)"
    using split_into_trips_nodes assms(2) by blast
  from trips_loop_pure [OF assms(1) this, of net due 0 "[]"] obtain osrm1 where
    r: "trips_loop net due osrm 0 [] (split_into_trips route cap demand)
          = Inr (trips_pure (edge_duration net osrm) (edge_is_fallback net osrm) due 0 []
                   (split_into_trips route cap demand), osrm1)"
    and s1: "same_edges net osrm osrm1"
    by blast
  have "validate_multitrip net route cap demand due osrm
          = Inr (validate_pure (edge_duration net osrm) (edge_is_fallback net osrm)
                   route cap demand due, osrm1)"
    by (simp add: validate_multitrip_def validate_pure_def r split: option.splits)
  with s1 show ?thesis by blast
qed

subsection \<open>The verdict in closed form\<close>

lemma walk_pure_char:
  "walk_pure dur fb due clk legs =
     (if \<exists>k < length legs. snd (legs ! k) \<noteq> 0
            \<and> (clk + sum_list (map dur (take (Suc k) legs))) / 60
                 > real_of_int (due_get due (snd (legs ! k)))
            \<and> \<not> fb (legs ! k)
      then None else Some (clk + sum_list (map dur legs)))"
proof (induction legs arbitrary: clk)
  case Nil
  then show ?case by simp
next
  case (Cons e legs)
  show ?case
    by (auto simp add: Cons.IH Let_def Ex_less_Suc2 add.assoc)
qed

lemma walk_pure_late:
  "walk_pure dur fb due 0 legs =
     (if \<exists>k. late_at dur due legs k \<and> \<not> fb (legs ! k) then None
      else Some (sum_list (map dur legs)))"
  by (auto simp: walk_pure_char late_at_def arrival_clock_def)

lemma trips_pure_char:
  "trips_pure dur fb due total_t expanded trips =
     (if strict_late dur fb due trips then None
      else Some (total_t + shift_time dur trips, stitch expanded trips))"
proof (induction trips arbitrary: total_t expanded)
  case Nil
  then show ?case by (simp add: strict_late_def shift_time_def)
next
  case (Cons t trips)
  have legs: "zip ([0] @ fst t @ [0]) (tl ([0] @ fst t @ [0])) = trip_legs (fst t)"
    by (simp add: trip_legs_def)
  have sl: "strict_late dur fb due (t # trips) =
              ((\<exists>k. late_at dur due (trip_legs (fst t)) k \<and> \<not> fb (trip_legs (fst t) ! k))
               \<or> strict_late dur fb due trips)"
    by (simp add: strict_late_def)
  have st: "shift_time dur (t # trips) = trip_time dur (fst t) + shift_time dur trips"
    by (simp add: shift_time_def)
  show ?case
    unfolding trips_pure.simps Let_def legs walk_pure_late sl st
    by (simp add: Cons.IH trip_time_def add.assoc)
qed

lemma validate_pure_char:
  "validate_pure dur fb route cap demand due =
     (let trips = split_into_trips route cap demand
      in if strict_late dur fb due trips \<or> shift_time dur trips > SHIFT_LIMIT_SEC
         then (False, [], [])
         else (True, stitch [] trips, filter (\<lambda>n. n \<noteq> 0) (stitch [] trips)))"
  by (simp add: validate_pure_def trips_pure_char Let_def)

lemma validate_multitrip_char:
  assumes "0 \<in> dom (coords osrm)" and "set route \<subseteq> dom (coords osrm)"
  shows "\<exists>osrm'. validate_multitrip net route cap demand due osrm
           = Inr ((if strict_late (edge_duration net osrm) (edge_is_fallback net osrm) due
                        (split_into_trips route cap demand)
                      \<or> shift_time (edge_duration net osrm) (split_into_trips route cap demand)
                           > SHIFT_LIMIT_SEC
                   then (False, [], [])
                   else (True, stitch [] (split_into_trips route cap demand),
                         filter (\<lambda>n. n \<noteq> 0) (stitch [] (split_into_trips route cap demand)))),
                  osrm')
         \<and> same_edges net osrm osrm'"
  using validate_multitrip_pure [OF assms, of net cap demand due]
  by (simp add: validate_pure_char Let_def)

subsection \<open>Sample computations\<close>






subsection \<open>Deadlines\<close>



subsection \<open>The shift limit\<close>



section \<open>Properties of the merge\<close>

subsection \<open>The verdict and the path of one validation\<close>

lemma stitch_strip:
  "filter (\<lambda>n. n \<noteq> 0) (stitch ex trips)
     = filter (\<lambda>n. n \<noteq> 0) ex @ filter (\<lambda>n. n \<noteq> 0) (concat (map fst trips))"
  by (induction trips arbitrary: ex) auto

lemma expanded_path_strip:
  "filter (\<lambda>n. n \<noteq> 0) (expanded_path route cap demand) = filter (\<lambda>n. n \<noteq> 0) route"
  by (simp add: expanded_path_def stitch_strip split_into_trips_concat)

lemma same_edges_coords: "same_edges net osrm osrm' \<Longrightarrow> coords osrm' = coords osrm"
  by (simp add: same_edges_def)

lemma same_edges_route_ok:
  "same_edges net osrm osrm' \<Longrightarrow> route_ok net osrm' = route_ok net osrm"
  by (intro ext) (simp add: route_ok_def same_edges_duration same_edges_fallback)

lemma same_edges_clean:
  "same_edges net osrm osrm' \<Longrightarrow> clean_routes osrm' = clean_routes osrm"
  by (intro ext) (simp add: clean_routes_def same_edges_coords)

lemma validate_multitrip_verdict:
  assumes "0 \<in> dom (coords osrm)" and "set route \<subseteq> dom (coords osrm)"
  shows "\<exists>osrm'. validate_multitrip net route cap demand due osrm
           = Inr ((if route_ok net osrm cap demand due route
                   then (True, expanded_path route cap demand, filter (\<lambda>n. n \<noteq> 0) route)
                   else (False, [], [])), osrm')
         \<and> same_edges net osrm osrm'"
  using validate_multitrip_char [OF assms, of net cap demand due]
  by (auto simp: route_ok_def expanded_path_def stitch_strip split_into_trips_concat not_le)

subsection \<open>One pass over the pairs, and the loop\<close>

lemma scan_pairs_spec:
  assumes "0 \<in> dom (coords osrm)"
    and "\<forall>r \<in> set raw. set r \<subseteq> dom (coords osrm)"
    and "\<forall>p \<in> set ps. fst p < length raw \<and> snd p < length raw"
  shows "\<exists>osrm'. scan_pairs net cap demand due osrm raw ps
           = Inr (map_option (\<lambda>(i, j). (i, j, filter (\<lambda>n. n \<noteq> 0) (raw ! i @ raw ! j)))
                    (find (\<lambda>(i, j). route_ok net osrm cap demand due (raw ! i @ raw ! j)) ps),
                  osrm')
         \<and> same_edges net osrm osrm'"
  using assms
proof (induction ps arbitrary: osrm)
  case Nil
  then show ?case by (simp add: same_edges_refl)
next
  case (Cons p ps)
  obtain i j where p: "p = (i, j)" by (cases p)
  from Cons.prems(3) p have ij: "i < length raw" "j < length raw" by simp_all
  with Cons.prems(2) have "set (raw ! i @ raw ! j) \<subseteq> dom (coords osrm)"
    using nth_mem [of i raw] nth_mem [of j raw] by auto
  from validate_multitrip_verdict [OF Cons.prems(1) this, of net cap demand due]
  obtain osrm1 where
    v: "validate_multitrip net (raw ! i @ raw ! j) cap demand due osrm
          = Inr ((if route_ok net osrm cap demand due (raw ! i @ raw ! j)
                  then (True, expanded_path (raw ! i @ raw ! j) cap demand,
                        filter (\<lambda>n. n \<noteq> 0) (raw ! i @ raw ! j))
                  else (False, [], [])), osrm1)"
    and s1: "same_edges net osrm osrm1"
    by blast
  show ?case
  proof (cases "route_ok net osrm cap demand due (raw ! i @ raw ! j)")
    case True
    with v s1 show ?thesis by (auto simp: p)
  next
    case False
    have "0 \<in> dom (coords osrm1)" "\<forall>r \<in> set raw. set r \<subseteq> dom (coords osrm1)"
      using Cons.prems same_edges_coords [OF s1] by simp_all
    from Cons.IH [OF this] Cons.prems(3) obtain osrm2 where
      r: "scan_pairs net cap demand due osrm1 raw ps
            = Inr (map_option (\<lambda>(i, j). (i, j, filter (\<lambda>n. n \<noteq> 0) (raw ! i @ raw ! j)))
                     (find (\<lambda>(i, j). route_ok net osrm1 cap demand due (raw ! i @ raw ! j)) ps),
                   osrm2)"
      and s2: "same_edges net osrm1 osrm2"
      by auto
    have "scan_pairs net cap demand due osrm raw (p # ps)
            = Inr (map_option (\<lambda>(i, j). (i, j, filter (\<lambda>n. n \<noteq> 0) (raw ! i @ raw ! j)))
                     (find (\<lambda>(i, j). route_ok net osrm cap demand due (raw ! i @ raw ! j)) (p # ps)),
                   osrm2)"
      using False v r by (simp add: p same_edges_route_ok [OF s1])
    with same_edges_trans [OF s1 s2] show ?thesis by blast
  qed
qed

lemma index_pairs_set: "set (index_pairs n) = {(i, j). i < j \<and> j < n}"
  by (fastforce simp: index_pairs_def)

lemma no_pair_sorted_wrt:
  "(find (\<lambda>(i, j). P (raw ! i @ raw ! j)) (index_pairs (length raw)) = None)
     = sorted_wrt (\<lambda>a b. \<not> P (a @ b)) raw"
  by (auto simp: find_None_iff index_pairs_set sorted_wrt_iff_nth_less)

lemma set_pop: "set (pop k xs) \<subseteq> set xs"
  using set_take_subset [of k xs] set_drop_subset [of "Suc k" xs]
  by (auto simp: pop_def)

lemma length_pop_pair:
  assumes "i < j" and "j < length xs"
  shows "length (pop i (pop j xs) @ [x]) < length xs"
  using assms by (auto simp: pop_def)


lemma clean_routes_known:
  "clean_routes osrm raw \<Longrightarrow> \<forall>r \<in> set raw. set r \<subseteq> dom (coords osrm)"
  by (simp add: clean_routes_def)

lemma index_pairs_in_range:
  "\<forall>p \<in> set (index_pairs (length raw)). fst p < length raw \<and> snd p < length raw"
  by (auto simp: index_pairs_set)

lemma merge_loop_fixed:
  assumes "0 \<in> dom (coords osrm)" and "clean_routes osrm raw"
    and "sorted_wrt (\<lambda>a b. \<not> route_ok net osrm cap demand due (a @ b)) raw"
  shows "\<exists>osrm'. merge_loop net cap demand due osrm raw = Inr (raw, osrm')
           \<and> same_edges net osrm osrm'"
proof -
  from scan_pairs_spec [OF assms(1) clean_routes_known [OF assms(2)] index_pairs_in_range,
      of net cap demand due]
  obtain osrm1 where
    sc: "scan_pairs net cap demand due osrm raw (index_pairs (length raw))
           = Inr (map_option (\<lambda>(i, j). (i, j, filter (\<lambda>n. n \<noteq> 0) (raw ! i @ raw ! j)))
                    (find (\<lambda>(i, j). route_ok net osrm cap demand due (raw ! i @ raw ! j))
                       (index_pairs (length raw))), osrm1)"
    and s1: "same_edges net osrm osrm1"
    by blast
  have "find (\<lambda>(i, j). route_ok net osrm cap demand due (raw ! i @ raw ! j))
          (index_pairs (length raw)) = None"
    using assms(3) by (simp only: no_pair_sorted_wrt)
  then have "merge_loop net cap demand due osrm raw = Inr (raw, osrm1)"
    by (subst merge_loop.simps) (simp add: sc)
  with s1 show ?thesis by blast
qed

lemma merge_loop_spec:
  assumes "0 \<in> dom (coords osrm)" and "clean_routes osrm raw"
  shows "\<exists>raw' osrm'. merge_loop net cap demand due osrm raw = Inr (raw', osrm')
           \<and> same_edges net osrm osrm' \<and> clean_routes osrm raw'
           \<and> sorted_wrt (\<lambda>a b. \<not> route_ok net osrm cap demand due (a @ b)) raw'"
  using assms
proof (induction "length raw" arbitrary: raw osrm rule: less_induct)
  case less
  let ?P = "\<lambda>(i, j). route_ok net osrm cap demand due (raw ! i @ raw ! j)"
  from scan_pairs_spec [OF less.prems(1) clean_routes_known [OF less.prems(2)]
      index_pairs_in_range, of net cap demand due]
  obtain osrm1 where
    sc: "scan_pairs net cap demand due osrm raw (index_pairs (length raw))
           = Inr (map_option (\<lambda>(i, j). (i, j, filter (\<lambda>n. n \<noteq> 0) (raw ! i @ raw ! j)))
                    (find ?P (index_pairs (length raw))), osrm1)"
    and s1: "same_edges net osrm osrm1"
    by blast
  show ?case
  proof (cases "find ?P (index_pairs (length raw))")
    case None
    then have "sorted_wrt (\<lambda>a b. \<not> route_ok net osrm cap demand due (a @ b)) raw"
      by (simp only: no_pair_sorted_wrt)
    moreover from None have "merge_loop net cap demand due osrm raw = Inr (raw, osrm1)"
      by (subst merge_loop.simps) (simp add: sc)
    ultimately show ?thesis using s1 less.prems(2) by blast
  next
    case (Some p)
    obtain i j where p: "p = (i, j)" by (cases p)
    from Some obtain k where "k < length (index_pairs (length raw))"
      and "index_pairs (length raw) ! k = p"
      unfolding find_Some_iff by blast
    then have "p \<in> set (index_pairs (length raw))"
      using nth_mem by force
    then have ij: "i < j" "j < length raw" by (simp_all add: p index_pairs_set)
    let ?rw = "filter (\<lambda>n. n \<noteq> 0) (raw ! i @ raw ! j)"
    let ?raw1 = "pop i (pop j raw) @ [?rw]"
    have mi: "raw ! i \<in> set raw" and mj: "raw ! j \<in> set raw"
      using ij by simp_all
    have "0 \<notin> set (raw ! i)" "0 \<notin> set (raw ! j)"
      using less.prems(2) mi mj by (auto simp: clean_routes_def)
    then have "\<forall>n \<in> set (raw ! i @ raw ! j). n \<noteq> 0"
      by auto
    then have rw: "?rw = raw ! i @ raw ! j"
      by (simp only: filter_id_conv)
    have "set (pop i (pop j raw)) \<subseteq> set raw"
      using set_pop [of i "pop j raw"] set_pop [of j raw] by blast
    then have c1: "clean_routes osrm ?raw1"
      using less.prems(2) mi mj unfolding rw by (auto simp: clean_routes_def)
    have len: "length ?raw1 < length raw"
      by (rule length_pop_pair [OF ij])
    have k1: "0 \<in> dom (coords osrm1)" "clean_routes osrm1 ?raw1"
      using less.prems(1) c1 by (simp_all add: same_edges_coords [OF s1] same_edges_clean [OF s1])
    from less.hyps [OF len k1] obtain raw' osrm2 where
      m: "merge_loop net cap demand due osrm1 ?raw1 = Inr (raw', osrm2)"
      and s2: "same_edges net osrm1 osrm2"
      and c2: "clean_routes osrm1 raw'"
      and n2: "sorted_wrt (\<lambda>a b. \<not> route_ok net osrm1 cap demand due (a @ b)) raw'"
      by blast
    have "merge_loop net cap demand due osrm raw = Inr (raw', osrm2)"
      by (subst merge_loop.simps) (simp add: sc Some p m del: filter_append)
    moreover have "same_edges net osrm osrm2" by (rule same_edges_trans [OF s1 s2])
    moreover have "clean_routes osrm raw'" using c2 by (simp add: same_edges_clean [OF s1])
    moreover have "sorted_wrt (\<lambda>a b. \<not> route_ok net osrm cap demand due (a @ b)) raw'"
      using n2 by (simp add: same_edges_route_ok [OF s1])
    ultimately show ?thesis by blast
  qed
qed

subsection \<open>The result of the merge\<close>

lemma final_loop_spec:
  assumes "0 \<in> dom (coords osrm)" and "\<forall>r \<in> set raw. set r \<subseteq> dom (coords osrm)"
  shows "\<exists>osrm'. final_loop net cap demand due osrm final raw
           = Inr (final @ map (\<lambda>r. expanded_path r cap demand)
                             (filter (route_ok net osrm cap demand due) raw), osrm')
         \<and> same_edges net osrm osrm'"
  using assms
proof (induction raw arbitrary: osrm final)
  case Nil
  then show ?case by (simp add: same_edges_refl)
next
  case (Cons r raw)
  from Cons.prems have "set r \<subseteq> dom (coords osrm)" by simp
  from validate_multitrip_verdict [OF Cons.prems(1) this, of net cap demand due]
  obtain osrm1 where
    v: "validate_multitrip net r cap demand due osrm
          = Inr ((if route_ok net osrm cap demand due r
                  then (True, expanded_path r cap demand, filter (\<lambda>n. n \<noteq> 0) r)
                  else (False, [], [])), osrm1)"
    and s1: "same_edges net osrm osrm1"
    by blast
  have "0 \<in> dom (coords osrm1)" "\<forall>r \<in> set raw. set r \<subseteq> dom (coords osrm1)"
    using Cons.prems by (simp_all add: same_edges_coords [OF s1])
  from Cons.IH [OF this] obtain osrm2 where
    r: "final_loop net cap demand due osrm1
          (if route_ok net osrm cap demand due r then final @ [expanded_path r cap demand]
           else final) raw
          = Inr ((if route_ok net osrm cap demand due r then final @ [expanded_path r cap demand]
                  else final)
                 @ map (\<lambda>r. expanded_path r cap demand)
                     (filter (route_ok net osrm1 cap demand due) raw), osrm2)"
    and s2: "same_edges net osrm1 osrm2"
    by blast
  have "final_loop net cap demand due osrm final (r # raw)
          = Inr (final @ map (\<lambda>r. expanded_path r cap demand)
                             (filter (route_ok net osrm cap demand due) (r # raw)), osrm2)"
    using v r by (cases "route_ok net osrm cap demand due r")
                 (simp_all add: same_edges_route_ok [OF s1])
  with same_edges_trans [OF s1 s2] show ?case by blast
qed

lemma combine_spec:
  assumes "0 \<in> dom (coords osrm)"
    and "\<forall>r \<in> set routes. 0 \<notin> set r \<and> set r \<subseteq> dom (coords osrm)"
  shows "\<exists>kept osrm'. combine_and_validate_multitrip net routes cap demand due osrm
             = Inr (map (\<lambda>r. expanded_path r cap demand) kept, osrm')
           \<and> same_edges net osrm osrm' \<and> clean_routes osrm kept
           \<and> (\<forall>r \<in> set kept. route_ok net osrm cap demand due r)
           \<and> sorted_wrt (\<lambda>a b. \<not> route_ok net osrm cap demand due (a @ b)) kept
           \<and> (sorted_wrt (\<lambda>a b. \<not> route_ok net osrm cap demand due (a @ b))
                  (filter (\<lambda>r. r \<noteq> []) routes)
                \<longrightarrow> kept = filter (route_ok net osrm cap demand due)
                                 (filter (\<lambda>r. r \<noteq> []) routes))"
proof -
  let ?ok = "route_ok net osrm cap demand due"
  let ?raw0 = "filter (\<lambda>r. r \<noteq> []) routes"
  have c0: "clean_routes osrm ?raw0"
    using assms(2) by (auto simp: clean_routes_def)
  from merge_loop_spec [OF assms(1) c0, of net cap demand due] obtain raw osrm1 where
    m: "merge_loop net cap demand due osrm ?raw0 = Inr (raw, osrm1)"
    and s1: "same_edges net osrm osrm1"
    and c1: "clean_routes osrm raw"
    and n1: "sorted_wrt (\<lambda>a b. \<not> ?ok (a @ b)) raw"
    by blast
  have fx: "raw = ?raw0" if "sorted_wrt (\<lambda>a b. \<not> ?ok (a @ b)) ?raw0"
    using merge_loop_fixed [OF assms(1) c0 that] m by auto
  have "0 \<in> dom (coords osrm1)" "\<forall>r \<in> set raw. set r \<subseteq> dom (coords osrm1)"
    using assms(1) clean_routes_known [OF c1] by (simp_all add: same_edges_coords [OF s1])
  from final_loop_spec [OF this, of net cap demand due "[]"] obtain osrm2 where
    f: "final_loop net cap demand due osrm1 [] raw
          = Inr (map (\<lambda>r. expanded_path r cap demand) (filter ?ok raw), osrm2)"
    and s2: "same_edges net osrm1 osrm2"
    by (auto simp: same_edges_route_ok [OF s1])
  have "combine_and_validate_multitrip net routes cap demand due osrm
          = Inr (map (\<lambda>r. expanded_path r cap demand) (filter ?ok raw), osrm2)"
    by (simp add: combine_and_validate_multitrip_def m f)
  moreover have "same_edges net osrm osrm2" by (rule same_edges_trans [OF s1 s2])
  moreover have "clean_routes osrm (filter ?ok raw)"
    using c1 by (simp add: clean_routes_def)
  moreover have "\<forall>r \<in> set (filter ?ok raw). ?ok r" by simp
  moreover have "sorted_wrt (\<lambda>a b. \<not> ?ok (a @ b)) (filter ?ok raw)"
    using n1 by (rule sorted_wrt_filter)
  moreover have "sorted_wrt (\<lambda>a b. \<not> ?ok (a @ b)) ?raw0 \<longrightarrow> filter ?ok raw = filter ?ok ?raw0"
    using fx by simp
  ultimately show ?thesis by blast
qed

lemma combine_and_validate_multitrip_returns:
  assumes "0 \<in> dom (coords osrm)"
    and "\<forall>r \<in> set routes. 0 \<notin> set r \<and> set r \<subseteq> dom (coords osrm)"
  shows "\<exists>final osrm1. combine_and_validate_multitrip net routes cap demand due osrm
                          = Inr (final, osrm1)"
  using combine_spec [OF assms, of net cap demand due] by blast

subsection \<open>Running the merge on its own result\<close>

text \<open>
  Claim C8, as the code has it.  The routes given to the merge are sequences of
  customers, and the routes it returns are expanded paths, which carry the depot \<open>0\<close> at
  both ends and between trips.  Let the depot and the nodes of the routes have
  coordinates, let no route contain the depot, and let the merge return \<open>final\<close>.  Then
  the merge of the routes of \<open>final\<close> without their depot markers, with the same capacity,
  demands, due times and client (in the state the first run left it in), returns
  \<open>final\<close> again, and no two of these routes can be merged: the validation of the
  concatenation of any two of them, in their order, is rejected.
\<close>

theorem combine_and_validate_multitrip_idempotent:
  assumes "0 \<in> dom (coords osrm)"
    and "\<forall>r \<in> set routes. 0 \<notin> set r \<and> set r \<subseteq> dom (coords osrm)"
    and "combine_and_validate_multitrip net routes cap demand due osrm = Inr (final, osrm1)"
  shows "(\<exists>osrm2. combine_and_validate_multitrip net (map (filter (\<lambda>n. n \<noteq> 0)) final)
                     cap demand due osrm1 = Inr (final, osrm2))
       \<and> (\<forall>i j. i < j \<and> j < length final \<longrightarrow>
             (\<exists>osrm3. validate_multitrip net
                         (filter (\<lambda>n. n \<noteq> 0) (final ! i) @ filter (\<lambda>n. n \<noteq> 0) (final ! j))
                         cap demand due osrm1
                       = Inr ((False, [], []), osrm3)))"
proof -
  let ?ok = "route_ok net osrm cap demand due"
  let ?strip = "filter (\<lambda>n. n \<noteq> (0 :: int))"
  from combine_spec [OF assms(1,2), of net cap demand due] assms(3) obtain kept where
    fin: "final = map (\<lambda>r. expanded_path r cap demand) kept"
    and s1: "same_edges net osrm osrm1"
    and c1: "clean_routes osrm kept"
    and ok1: "\<forall>r \<in> set kept. ?ok r"
    and n1: "sorted_wrt (\<lambda>a b. \<not> ?ok (a @ b)) kept"
    by auto
  have se: "?strip (expanded_path r cap demand) = r" if "r \<in> set kept" for r
    using c1 that by (auto simp: expanded_path_strip clean_routes_def filter_id_conv)
  then have strip: "map ?strip final = kept"
    by (simp add: fin map_idI)
  have ne: "filter (\<lambda>r. r \<noteq> []) kept = kept"
    using c1 by (auto simp: clean_routes_def filter_id_conv)
  have k1: "0 \<in> dom (coords osrm1)"
    "\<forall>r \<in> set kept. 0 \<notin> set r \<and> set r \<subseteq> dom (coords osrm1)"
    using assms(1) c1 by (auto simp: same_edges_coords [OF s1] clean_routes_def)
  from combine_spec [OF k1, of net cap demand due] obtain kept2 osrm2 where
    r2: "combine_and_validate_multitrip net kept cap demand due osrm1
           = Inr (map (\<lambda>r. expanded_path r cap demand) kept2, osrm2)"
    and fx: "sorted_wrt (\<lambda>a b. \<not> route_ok net osrm1 cap demand due (a @ b))
                  (filter (\<lambda>r. r \<noteq> []) kept)
                \<longrightarrow> kept2 = filter (route_ok net osrm1 cap demand due)
                                  (filter (\<lambda>r. r \<noteq> []) kept)"
    by blast
  have "kept2 = filter ?ok kept"
    using fx n1 by (simp add: ne same_edges_route_ok [OF s1])
  also have "\<dots> = kept" using ok1 by (simp add: filter_id_conv)
  finally have k2: "kept2 = kept" .
  have "combine_and_validate_multitrip net kept cap demand due osrm1 = Inr (final, osrm2)"
    using r2 by (simp only: k2 fin)
  then have second: "combine_and_validate_multitrip net (map ?strip final) cap demand due osrm1
                  = Inr (final, osrm2)"
    by (simp only: strip)
  have third: "\<exists>osrm3. validate_multitrip net (?strip (final ! i) @ ?strip (final ! j))
                           cap demand due osrm1 = Inr ((False, [], []), osrm3)"
    if "i < j \<and> j < length final" for i j
  proof -
    from that have ij: "i < j" "j < length kept" by (simp_all add: fin)
    have "?strip (final ! i) = kept ! i" "?strip (final ! j) = kept ! j"
      using ij se [of "kept ! i"] se [of "kept ! j"] by (simp_all add: fin)
    moreover have "\<not> ?ok (kept ! i @ kept ! j)"
      using n1 ij by (simp add: sorted_wrt_iff_nth_less)
    moreover have "set (kept ! i @ kept ! j) \<subseteq> dom (coords osrm1)"
      using k1(2) ij nth_mem [of i kept] nth_mem [of j kept] by auto
    ultimately show ?thesis
      using validate_multitrip_verdict [OF k1(1), of "kept ! i @ kept ! j" net cap demand due]
      by (auto simp: same_edges_route_ok [OF s1])
  qed
  from second third show ?thesis by blast
qed

text \<open>
  With edges of 300 seconds and no due times, the routes \<open>[1]\<close> and \<open>[2]\<close> merge into one
  path, and the merge of \<open>[1, 2]\<close> returns that path again.  With both customers due at
  minute 6 the concatenation is rejected (customer 2 would be reached in minute 10),
  both routes are kept, and the merge of the two kept routes returns them again.
\<close>

lemma two_customers_known:
  "0 \<in> dom (coords two_customers)"
  "\<forall>r \<in> set [[1], [2]]. 0 \<notin> set r \<and> set r \<subseteq> dom (coords two_customers)"
  by (simp_all add: two_customers_def fresh_client_def)

lemma index_pairs_small:
  "index_pairs 0 = []" "index_pairs (Suc 0) = []" "index_pairs (Suc (Suc 0)) = [(0, Suc 0)]"
  by (simp_all add: index_pairs_def upt_rec)

lemmas merge_eval =
  combine_and_validate_multitrip_def merge_loop.simps index_pairs_small pop_def
  validate_multitrip_def split_into_trips_def demand_get_def due_get_def get_edge_def
  live_net_def live_query_def pick_cell_def fresh_client_def Let_def SHIFT_LIMIT_SEC_def

lemma merge_two_customers:
  "\<exists>osrm1. combine_and_validate_multitrip (live_net 300) [[1], [2]] 15 [1 \<mapsto> 1, 2 \<mapsto> 1]
              Map.empty two_customers = Inr ([[0, 1, 2, 0]], osrm1)"
  "\<exists>osrm1. combine_and_validate_multitrip (live_net 300) [[1], [2]] 15 [1 \<mapsto> 1, 2 \<mapsto> 1]
              [1 \<mapsto> 6, 2 \<mapsto> 6] two_customers = Inr ([[0, 1, 0], [0, 2, 0]], osrm1)"
  by (simp_all add: merge_eval two_customers_def)

theorem combine_and_validate_multitrip_idempotent_witness:
  "(\<exists>osrm1 osrm2.
      combine_and_validate_multitrip (live_net 300) [[1], [2]] 15 [1 \<mapsto> 1, 2 \<mapsto> 1] Map.empty
         two_customers = Inr ([[0, 1, 2, 0]], osrm1)
    \<and> combine_and_validate_multitrip (live_net 300) [[1, 2]] 15 [1 \<mapsto> 1, 2 \<mapsto> 1] Map.empty
         osrm1 = Inr ([[0, 1, 2, 0]], osrm2))
   \<and> (\<exists>osrm1 osrm2 osrm3.
      combine_and_validate_multitrip (live_net 300) [[1], [2]] 15 [1 \<mapsto> 1, 2 \<mapsto> 1]
         [1 \<mapsto> 6, 2 \<mapsto> 6] two_customers = Inr ([[0, 1, 0], [0, 2, 0]], osrm1)
    \<and> combine_and_validate_multitrip (live_net 300) [[1], [2]] 15 [1 \<mapsto> 1, 2 \<mapsto> 1]
         [1 \<mapsto> 6, 2 \<mapsto> 6] osrm1 = Inr ([[0, 1, 0], [0, 2, 0]], osrm2)
    \<and> validate_multitrip (live_net 300) [1, 2] 15 [1 \<mapsto> 1, 2 \<mapsto> 1] [1 \<mapsto> 6, 2 \<mapsto> 6] osrm1
         = Inr ((False, [], []), osrm3))"
proof -
  from merge_two_customers(1) obtain a where
    a: "combine_and_validate_multitrip (live_net 300) [[1], [2]] 15 [1 \<mapsto> 1, 2 \<mapsto> 1]
          Map.empty two_customers = Inr ([[0, 1, 2, 0]], a)"
    by blast
  from combine_and_validate_multitrip_idempotent [OF two_customers_known a]
  have "\<exists>osrm2. combine_and_validate_multitrip (live_net 300) [[1, 2]] 15 [1 \<mapsto> 1, 2 \<mapsto> 1]
                  Map.empty a = Inr ([[0, 1, 2, 0]], osrm2)"
    by simp
  with a have first: "\<exists>osrm1 osrm2.
      combine_and_validate_multitrip (live_net 300) [[1], [2]] 15 [1 \<mapsto> 1, 2 \<mapsto> 1] Map.empty
         two_customers = Inr ([[0, 1, 2, 0]], osrm1)
    \<and> combine_and_validate_multitrip (live_net 300) [[1, 2]] 15 [1 \<mapsto> 1, 2 \<mapsto> 1] Map.empty
         osrm1 = Inr ([[0, 1, 2, 0]], osrm2)"
    by blast
  from merge_two_customers(2) obtain b where
    b: "combine_and_validate_multitrip (live_net 300) [[1], [2]] 15 [1 \<mapsto> 1, 2 \<mapsto> 1]
          [1 \<mapsto> 6, 2 \<mapsto> 6] two_customers = Inr ([[0, 1, 0], [0, 2, 0]], b)"
    by blast
  note i = combine_and_validate_multitrip_idempotent [OF two_customers_known b]
  from i have "\<exists>osrm2. combine_and_validate_multitrip (live_net 300) [[1], [2]] 15
                  [1 \<mapsto> 1, 2 \<mapsto> 1] [1 \<mapsto> 6, 2 \<mapsto> 6] b = Inr ([[0, 1, 0], [0, 2, 0]], osrm2)"
    by simp
  moreover from i have "0 < (1 :: nat) \<and> 1 < length [[0, 1, 0], [0, 2, 0 :: node]] \<longrightarrow>
      (\<exists>osrm3. validate_multitrip (live_net 300)
                  (filter (\<lambda>n. n \<noteq> 0) ([[0, 1, 0], [0, 2, 0]] ! 0)
                   @ filter (\<lambda>n. n \<noteq> 0) ([[0, 1, 0], [0, 2, 0]] ! 1))
                  15 [1 \<mapsto> 1, 2 \<mapsto> 1] [1 \<mapsto> 6, 2 \<mapsto> 6] b = Inr ((False, [], []), osrm3))"
    by blast
  then have "\<exists>osrm3. validate_multitrip (live_net 300) [1, 2] 15 [1 \<mapsto> 1, 2 \<mapsto> 1]
                  [1 \<mapsto> 6, 2 \<mapsto> 6] b = Inr ((False, [], []), osrm3)"
    by simp
  ultimately have second: "\<exists>osrm1 osrm2 osrm3.
      combine_and_validate_multitrip (live_net 300) [[1], [2]] 15 [1 \<mapsto> 1, 2 \<mapsto> 1]
         [1 \<mapsto> 6, 2 \<mapsto> 6] two_customers = Inr ([[0, 1, 0], [0, 2, 0]], osrm1)
    \<and> combine_and_validate_multitrip (live_net 300) [[1], [2]] 15 [1 \<mapsto> 1, 2 \<mapsto> 1]
         [1 \<mapsto> 6, 2 \<mapsto> 6] osrm1 = Inr ([[0, 1, 0], [0, 2, 0]], osrm2)
    \<and> validate_multitrip (live_net 300) [1, 2] 15 [1 \<mapsto> 1, 2 \<mapsto> 1] [1 \<mapsto> 6, 2 \<mapsto> 6] osrm1
         = Inr ((False, [], []), osrm3)"
    using b by blast
  from first second show ?thesis by blast
qed

text \<open>
  Claim C8 as stated, for the merge run on its own output, fails: the output carries
  the depot markers, which the second run takes for customers.  The merge of the single
  route \<open>[1]\<close> returns the path \<open>[0, 1, 0]\<close>, and the merge of that path returns
  \<open>[0, 0, 1, 0, 0]\<close>.
\<close>

theorem combine_and_validate_multitrip_idempotent_counterexample:
  "\<exists>osrm1 osrm2.
     combine_and_validate_multitrip (live_net 300) [[1]] 15 [1 \<mapsto> 1] Map.empty one_customer
       = Inr ([[0, 1, 0]], osrm1)
   \<and> combine_and_validate_multitrip (live_net 300) [[0, 1, 0]] 15 [1 \<mapsto> 1] Map.empty osrm1
       = Inr ([[0, 0, 1, 0, 0]], osrm2)
   \<and> set [[0, 0, 1, 0, 0]] \<noteq> set [[0, 1, 0 :: node]]"
  by (simp add: merge_eval one_customer_def)

end
